theory Spec2Isabelle
  imports Complex_Main "HOL-Library.Multiset" "HOL-Library.Sublist"
begin

section \<open>Data model\<close>

text \<open>
  The three tables of \<^verbatim>\<open>app.py\<close> are pandas data frames read from CSV files. A frame is
  modelled as the list of its rows in index order, a row as a record of the columns the
  program reads. Identifiers are Python integers, names are strings, the description
  column is nullable (NaN in pandas, \<open>None\<close> here), ratings and the estimates of the
  factorisation model are numbers (\<open>real\<close>; NaN is not a value of the model). The
  columns \<open>Place_Id\<close> and \<open>Place_Name\<close> of the rating table are the fields
  \<open>Rated_Place_Id\<close> and \<open>Rated_Place_Name\<close>, since the place table has the same names.

  The text of the tables is modelled as ASCII: on it \<open>str.lower\<close> acts on the letters
  \<open>A\<close> to \<open>Z\<close> only. The keyword of a search is what the user types: a Python string of
  any code points, modelled as the list of its code points.

  \<open>read_csv\<close> (line 23) gives a column the type of its cells. A column with a text cell
  has the type \<open>object\<close>; so has every column of an empty table. A column of a non-empty
  table all of whose cells are null has the type \<open>float64\<close>, on which the accessor \<open>.str\<close>
  raises \<open>AttributeError\<close>.
\<close>

record rating =
  User_Id :: int
  Rated_Place_Id :: int
  Rated_Place_Name :: string
  Place_Rating :: real

record place =
  Place_Id :: int
  Place_Name :: string
  Description :: "string option"

datatype py_error = IndexError | ReError | AttributeError

section \<open>Recommendation (lines 48 to 66)\<close>

text \<open>
  \<^verbatim>\<open>predict_rating\<close> reads the field \<open>est\<close> of \<open>model.predict(user_id, place_id)\<close>. The
  trained model is an artefact outside the source; it is the parameter \<open>model\<close>.
\<close>

definition predict_rating :: "(int \<Rightarrow> int \<Rightarrow> real) \<Rightarrow> int \<Rightarrow> int \<Rightarrow> real" where
  "predict_rating model user_id place_id = model user_id place_id"

text \<open>Line 55: the \<open>Place_Id\<close> column of the rating rows of the user.\<close>

definition rated_places :: "rating list \<Rightarrow> int \<Rightarrow> int list" where
  "rated_places rating_df user_id =
     map Rated_Place_Id (filter (\<lambda>r. User_Id r = user_id) rating_df)"

text \<open>Lines 56 and 57: the catalogue ids that are not among the rated ones, in catalogue order.\<close>

definition unrated :: "rating list \<Rightarrow> place list \<Rightarrow> int \<Rightarrow> int list" where
  "unrated rating_df place_df user_id =
     filter (\<lambda>p. p \<notin> set (rated_places rating_df user_id)) (map Place_Id place_df)"

text \<open>
  Line 62: \<open>place_df[place_df['Place_Id'] == place]['Place_Name'].values[0]\<close>. Element 0
  of an empty array raises \<open>IndexError\<close>.
\<close>

definition name_values :: "place list \<Rightarrow> int \<Rightarrow> string list" where
  "name_values place_df p = map Place_Name (filter (\<lambda>r. Place_Id r = p) place_df)"

definition lookup_name :: "place list \<Rightarrow> int \<Rightarrow> py_error + string" where
  "lookup_name place_df p =
     (case name_values place_df p of [] \<Rightarrow> Inl IndexError | nm # _ \<Rightarrow> Inr nm)"

text \<open>Lines 59 to 63: the loop that builds \<open>predictions\<close>; it stops at the first exception.\<close>

fun predict_loop ::
  "place list \<Rightarrow> (int \<Rightarrow> int \<Rightarrow> real) \<Rightarrow> int \<Rightarrow> int list \<Rightarrow> py_error + (int \<times> string \<times> real) list"
where
  "predict_loop place_df model user_id [] = Inr []"
| "predict_loop place_df model user_id (p # ps) =
     (let est_rating = predict_rating model user_id p in
      case lookup_name place_df p of
        Inl e \<Rightarrow> Inl e
      | Inr place_name \<Rightarrow>
          (case predict_loop place_df model user_id ps of
             Inl e \<Rightarrow> Inl e
           | Inr rest \<Rightarrow> Inr ((p, place_name, est_rating) # rest)))"

text \<open>
  Line 65: \<open>list.sort(key=..., reverse=True)\<close>. The sort of Python lists is stable; with
  \<open>reverse=True\<close> the list is reversed, sorted ascending and reversed again, so that equal
  keys keep their order.
\<close>

definition est_of :: "int \<times> string \<times> real \<Rightarrow> real" where
  "est_of x = snd (snd x)"

definition sort_reverse :: "('a \<Rightarrow> 'k::linorder) \<Rightarrow> 'a list \<Rightarrow> 'a list" where
  "sort_reverse key xs = rev (sort_key key (rev xs))"

text \<open>
  Line 66: the slice \<open>xs[:n]\<close>. A negative bound counts from the end of the list.
\<close>

definition slice_to :: "int \<Rightarrow> 'a list \<Rightarrow> 'a list" where
  "slice_to n xs = (if 0 \<le> n then take (nat n) xs else take (nat (int (length xs) + n)) xs)"

definition recommend_places ::
  "rating list \<Rightarrow> place list \<Rightarrow> (int \<Rightarrow> int \<Rightarrow> real) \<Rightarrow> int \<Rightarrow> int
     \<Rightarrow> py_error + (int \<times> string \<times> real) list"
where
  "recommend_places rating_df place_df model user_id top_n =
     (case predict_loop place_df model user_id (unrated rating_df place_df user_id) of
        Inl e \<Rightarrow> Inl e
      | Inr predictions \<Rightarrow> Inr (slice_to top_n (sort_reverse est_of predictions)))"

section \<open>Text operations of Python\<close>

text \<open>\<open>str.lower\<close> on the ASCII text of the tables.\<close>

definition lower_char :: "char \<Rightarrow> char" where
  "lower_char c =
     (let n = (of_char c :: nat) in if 65 \<le> n \<and> n \<le> 90 then char_of (n + 32) else c)"

definition lower :: "string \<Rightarrow> string" where
  "lower s = map lower_char s"

text \<open>The code points of a text of the tables.\<close>

definition codes :: "string \<Rightarrow> nat list" where
  "codes s = map of_char s"

text \<open>
  \<open>s.count(sub)\<close>: the number of occurrences of \<open>sub\<close> in \<open>s\<close> found from left to right
  without overlap (after an occurrence the scan goes on behind it); for the empty \<open>sub\<close>
  it is \<open>len(s) + 1\<close>. \<open>count_from\<close> is the scan for a non-empty \<open>sub\<close>.
\<close>

fun count_from :: "'a list \<Rightarrow> 'a list \<Rightarrow> nat" where
  "count_from sub [] = 0"
| "count_from sub (c # cs) =
     (if prefix sub (c # cs) then Suc (count_from sub (drop (length sub - 1) cs))
      else count_from sub cs)"

definition str_count :: "'a list \<Rightarrow> 'a list \<Rightarrow> int" where
  "str_count s sub = (if sub = [] then int (length s) + 1 else int (count_from sub s))"

subsection \<open>Case of the code points of a keyword\<close>

text \<open>
  Python has two lower-case mappings. \<open>str.lower\<close> uses the full mapping of Unicode. The
  module \<open>re\<close> under \<open>IGNORECASE\<close> uses the simple mapping of one code point to one code
  point (\<open>_sre.unicode_tolower\<close>), the test \<open>_sre.unicode_iscased\<close> and the table
  \<open>_ignorecase_fixes\<close> of code points that are equivalent without sharing a lower case.

  The model interprets the ASCII code points and the long s (U+017F), which is lower
  case, is equivalent to \<open>s\<close> in the table and is left alone by both mappings. The dotless
  i (U+0131) appears as the equivalent of \<open>i\<close>. Every other code point is left to the
  parameter \<open>uni\<close>, which stands for the rest of the Unicode tables of Python.
\<close>

record unicode =
  u_tolower :: "nat \<Rightarrow> nat"
  u_iscased :: "nat \<Rightarrow> bool"
  u_fixes :: "nat \<Rightarrow> nat list"
  u_lower :: "nat list \<Rightarrow> nat list"

definition long_s :: nat where
  "long_s = 0x17F"

definition dotless_i :: nat where
  "dotless_i = 0x131"

definition ascii_lower :: "nat \<Rightarrow> nat" where
  "ascii_lower c = (if 65 \<le> c \<and> c \<le> 90 then c + 32 else c)"

definition interpreted :: "nat \<Rightarrow> bool" where
  "interpreted c = (c < 128 \<or> c = long_s)"

definition tolower :: "unicode \<Rightarrow> nat \<Rightarrow> nat" where
  "tolower uni c =
     (if c < 128 then ascii_lower c else if c = long_s then long_s else u_tolower uni c)"

definition iscased :: "unicode \<Rightarrow> nat \<Rightarrow> bool" where
  "iscased uni c =
     (if c < 128 then (65 \<le> c \<and> c \<le> 90) \<or> (97 \<le> c \<and> c \<le> 122)
      else if c = long_s then True else u_iscased uni c)"

definition ignorecase_fixes :: "unicode \<Rightarrow> nat \<Rightarrow> nat list" where
  "ignorecase_fixes uni lo =
     (if lo = 105 then [dotless_i]
      else if lo = 115 then [long_s]
      else if lo < 128 then []
      else if lo = long_s then [115]
      else u_fixes uni lo)"

text \<open>Line 73: \<open>keyword.lower()\<close>.\<close>

definition str_lower :: "unicode \<Rightarrow> nat list \<Rightarrow> nat list" where
  "str_lower uni s = (if list_all interpreted s then map ascii_lower s else u_lower uni s)"

subsection \<open>Regular expressions\<close>

text \<open>
  \<open>Series.str.contains(pat, case=False, na=False)\<close> has \<open>regex=True\<close> by default: it
  compiles \<open>pat\<close> with \<open>re.compile(pat, flags=re.IGNORECASE)\<close> and keeps the elements where
  \<open>search\<close> finds a match; a null element gives \<open>na\<close>, that is \<open>False\<close>.

  The special characters of \<open>re\<close> are \<open>. ^ $ * + ? { } [ ] \ | ( )\<close>. The model interprets
  the patterns made of ordinary characters, the dot (any character but a newline) and the
  classes \<open>\d\<close> (a decimal digit) and \<open>\D\<close> (anything else). Every other pattern is left to
  the parameter \<open>ext\<close>, which stands for the rest of the library: it gives the exception
  of \<open>re.compile\<close> or the compiled pattern's search.
\<close>

datatype atom = Lit nat | AnyChar | Digit | NonDigit

definition backslash :: nat where
  "backslash = 0x5C"

definition dot :: nat where
  "dot = 0x2E"

definition newline :: char where
  "newline = CHR 0x0A"

definition metachars :: "nat list" where
  "metachars = codes ''.^$*+?{}[]|()'' @ [backslash]"

definition no_meta :: "nat list \<Rightarrow> bool" where
  "no_meta pat = list_all (\<lambda>c. c \<notin> set metachars) pat"

fun parse_atoms :: "nat list \<Rightarrow> atom list option" where
  "parse_atoms [] = Some []"
| "parse_atoms (c # cs) =
     (if c = dot then map_option (Cons AnyChar) (parse_atoms cs)
      else if c = backslash then
        (case cs of
           [] \<Rightarrow> None
         | d # ds \<Rightarrow>
             if d = 100 then map_option (Cons Digit) (parse_atoms ds)
             else if d = 68 then map_option (Cons NonDigit) (parse_atoms ds)
             else None)
      else if c \<in> set metachars then None
      else map_option (Cons (Lit c)) (parse_atoms cs))"

definition is_digit :: "char \<Rightarrow> bool" where
  "is_digit c = (let n = (of_char c :: nat) in 48 \<le> n \<and> n \<le> 57)"

text \<open>
  A literal of the pattern against a character of the text. A literal without case is
  compared as it is. A literal with case is replaced by its simple lower case and the
  equivalents of that in the table, and the simple lower case of the character of the
  text must be one of them; on the ASCII text of the tables the simple lower case is
  \<open>lower_char\<close>.
\<close>

fun atom_ok :: "unicode \<Rightarrow> atom \<Rightarrow> char \<Rightarrow> bool" where
  "atom_ok uni (Lit c) d =
     (if \<not> iscased uni c then of_char d = c
      else (let lo = tolower uni c
            in of_char (lower_char d) \<in> set (lo # ignorecase_fixes uni lo)))"
| "atom_ok uni AnyChar d = (d \<noteq> newline)"
| "atom_ok uni Digit d = is_digit d"
| "atom_ok uni NonDigit d = (\<not> is_digit d)"

text \<open>\<open>match_here\<close>: the atoms match a prefix of the text.\<close>

fun match_here :: "unicode \<Rightarrow> atom list \<Rightarrow> string \<Rightarrow> bool" where
  "match_here uni [] s = True"
| "match_here uni (a # as) [] = False"
| "match_here uni (a # as) (d # ds) = (atom_ok uni a d \<and> match_here uni as ds)"

text \<open>\<open>re_search\<close>: \<open>pattern.search(s) is not None\<close>, a match at some position of the text.\<close>

fun re_search :: "unicode \<Rightarrow> atom list \<Rightarrow> string \<Rightarrow> bool" where
  "re_search uni as [] = match_here uni as []"
| "re_search uni as (d # ds) = (match_here uni as (d # ds) \<or> re_search uni as ds)"

definition re_compile ::
  "unicode \<Rightarrow> (nat list \<Rightarrow> py_error + (string \<Rightarrow> bool)) \<Rightarrow> nat list
     \<Rightarrow> py_error + (string \<Rightarrow> bool)"
where
  "re_compile uni ext pat =
     (case parse_atoms pat of Some as \<Rightarrow> Inr (re_search uni as) | None \<Rightarrow> ext pat)"

section \<open>Search (lines 71 to 89)\<close>

text \<open>
  \<open>drop_duplicates()\<close> keeps the first of the rows that are equal in every column.
\<close>

fun drop_duplicates :: "'a list \<Rightarrow> 'a list" where
  "drop_duplicates [] = []"
| "drop_duplicates (x # xs) = x # drop_duplicates (filter (\<lambda>y. y \<noteq> x) xs)"

text \<open>Lines 83 to 86, with \<open>keyword_lower\<close> of line 73.\<close>

definition relevance_score :: "nat list \<Rightarrow> place \<Rightarrow> int" where
  "relevance_score keyword_lower row =
     (let name_score = str_count (codes (lower (Place_Name row))) keyword_lower;
          desc_score = (case Description row of
                          Some d \<Rightarrow> str_count (codes (lower d)) keyword_lower
                        | None \<Rightarrow> 0)
      in name_score * 2 + desc_score)"

text \<open>
  Line 89: \<open>sort_values(by="Relevance", ascending=False)\<close> with the default
  \<open>kind='quicksort'\<close>. pandas computes an indexer from the key column alone and takes the
  rows at these positions. The indexer is a permutation of the positions that puts the
  keys in descending order; which permutation it is among those is decided by the sorting
  routine of the library, and pandas documents the default kind as not stable. The
  computation of the indexer is the parameter \<open>nargsort\<close>, and \<open>nargsort_ok\<close> is what the
  library promises of it.
\<close>

definition nargsort_ok :: "(int list \<Rightarrow> nat list) \<Rightarrow> bool" where
  "nargsort_ok nargsort =
     (\<forall>keys. mset (nargsort keys) = mset [0..<length keys]
           \<and> sorted_wrt (\<lambda>i j. keys ! j \<le> keys ! i) (nargsort keys))"

definition take_rows :: "'a list \<Rightarrow> nat list \<Rightarrow> py_error + 'a list" where
  "take_rows rows indexer =
     (if list_all (\<lambda>i. i < length rows) indexer then Inr (map (\<lambda>i. rows ! i) indexer)
      else Inl IndexError)"

definition str_contains :: "(string \<Rightarrow> bool) \<Rightarrow> string option \<Rightarrow> bool" where
  "str_contains found cell = (case cell of None \<Rightarrow> False | Some s \<Rightarrow> found s)"

text \<open>
  The column \<open>Description\<close> of a non-empty table without any description is of type
  \<open>float64\<close>.
\<close>

definition float_column :: "place list \<Rightarrow> bool" where
  "float_column place_df = (place_df \<noteq> [] \<and> list_all (\<lambda>r. Description r = None) place_df)"

text \<open>
  Line 75 compiles the keyword first, so that a keyword that does not compile raises
  there. Line 76 then takes \<open>.str\<close> of the column \<open>Description\<close>.
\<close>

definition search_place ::
  "unicode \<Rightarrow> (nat list \<Rightarrow> py_error + (string \<Rightarrow> bool)) \<Rightarrow> (int list \<Rightarrow> nat list)
     \<Rightarrow> place list \<Rightarrow> nat list \<Rightarrow> py_error + (place \<times> int) list"
where
  "search_place uni ext nargsort place_df keyword =
     (let keyword_lower = str_lower uni keyword in
      case re_compile uni ext keyword of
        Inl e \<Rightarrow> Inl e
      | Inr found \<Rightarrow>
          if float_column place_df then Inl AttributeError
          else
            (let name_match = filter (\<lambda>r. str_contains found (Some (Place_Name r))) place_df;
                 desc_match = filter (\<lambda>r. str_contains found (Description r)) place_df;
                 results = drop_duplicates (name_match @ desc_match)
             in if results = [] then Inr []
                else
                  (let relevance = map (relevance_score keyword_lower) results
                   in take_rows (zip results relevance) (nargsort relevance))))"

text \<open>
  Lines 109 to 148: the page calls \<open>search_place\<close> only for a non-empty query and tells
  the three outcomes apart.
\<close>

datatype page = Prompt | NotFound | Listing "(place \<times> int) list" | Failure py_error

definition main_page ::
  "unicode \<Rightarrow> (nat list \<Rightarrow> py_error + (string \<Rightarrow> bool)) \<Rightarrow> (int list \<Rightarrow> nat list)
     \<Rightarrow> place list \<Rightarrow> nat list \<Rightarrow> page"
where
  "main_page uni ext nargsort place_df search_query =
     (if search_query \<noteq> [] then
        (case search_place uni ext nargsort place_df search_query of
           Inl e \<Rightarrow> Failure e
         | Inr results \<Rightarrow> if results = [] then NotFound else Listing results)
      else Prompt)"

section \<open>Average rating (lines 127 to 133)\<close>

text \<open>
  \<open>Series.mean()\<close> of an empty selection is NaN, which line 130 tests for; \<open>None\<close> is that
  outcome, for which the page prints that there is no rating yet.
\<close>

definition mean :: "real list \<Rightarrow> real option" where
  "mean vs = (if vs = [] then None else Some (sum_list vs / real (length vs)))"

definition avg_rating :: "rating list \<Rightarrow> string \<Rightarrow> real option" where
  "avg_rating rating_df place_name =
     mean (map Place_Rating
            (filter (\<lambda>r. lower (Rated_Place_Name r) = lower place_name) rating_df))"

datatype rating_line = Average real | No_Rating

definition rating_line :: "rating list \<Rightarrow> string \<Rightarrow> rating_line" where
  "rating_line rating_df place_name =
     (case avg_rating rating_df place_name of Some a \<Rightarrow> Average a | None \<Rightarrow> No_Rating)"

section \<open>The properties in the words of the specification\<close>

text \<open>The seen set of a user and the candidates of a recommendation.\<close>

definition seen_set :: "rating list \<Rightarrow> int \<Rightarrow> int set" where
  "seen_set rating_df u = Rated_Place_Id ` {r \<in> set rating_df. User_Id r = u}"

definition candidates :: "rating list \<Rightarrow> place list \<Rightarrow> int \<Rightarrow> int list" where
  "candidates rating_df place_df u =
     filter (\<lambda>p. p \<notin> seen_set rating_df u) (map Place_Id place_df)"

text \<open>A keyword of ASCII characters; one made of ordinary characters and dots.\<close>

definition ascii :: "nat list \<Rightarrow> bool" where
  "ascii kw = list_all (\<lambda>c. c < 128) kw"

definition plain :: "nat list \<Rightarrow> bool" where
  "plain kw = list_all (\<lambda>c. c = dot \<or> c \<notin> set metachars) kw"

text \<open>The atom that a character of such a keyword stands for.\<close>

definition atom_of :: "nat \<Rightarrow> atom" where
  "atom_of c = (if c = dot then AnyChar else Lit c)"

text \<open>
  A text contains an ASCII keyword as a literal substring, whatever the case of the
  letters.
\<close>

definition contains_literal :: "nat list \<Rightarrow> string \<Rightarrow> bool" where
  "contains_literal keyword s = sublist (map ascii_lower keyword) (codes (lower s))"

definition literal_match :: "nat list \<Rightarrow> place \<Rightarrow> bool" where
  "literal_match keyword r =
     (contains_literal keyword (Place_Name r)
      \<or> (case Description r of None \<Rightarrow> False | Some d \<Rightarrow> contains_literal keyword d))"

text \<open>The rows that line 78 keeps: the matches by name, then those by description, once each.\<close>

definition matched :: "(string \<Rightarrow> bool) \<Rightarrow> place list \<Rightarrow> place list" where
  "matched found place_df =
     drop_duplicates (filter (\<lambda>r. str_contains found (Some (Place_Name r))) place_df
                      @ filter (\<lambda>r. str_contains found (Description r)) place_df)"











text \<open>The rows of the rating table of a place, by position, so that equal rows count twice.\<close>

definition rating_rows :: "rating list \<Rightarrow> string \<Rightarrow> nat set" where
  "rating_rows rating_df nm =
     {i. i < length rating_df \<and> lower (Rated_Place_Name (rating_df ! i)) = lower nm}"

section \<open>Sample data\<close>

text \<open>An indexer that keeps equal keys in their order, as one instance of \<open>nargsort\<close>.\<close>

definition stable_nargsort :: "int list \<Rightarrow> nat list" where
  "stable_nargsort keys = sort_reverse (\<lambda>i. keys ! i) [0..<length keys]"

text \<open>
  For the samples every pattern outside the interpreted ones is taken not to compile and
  every code point outside the interpreted ones to have no case. The samples use
  interpreted patterns and code points only.
\<close>

definition no_ext :: "nat list \<Rightarrow> py_error + (string \<Rightarrow> bool)" where
  "no_ext pat = Inl ReError"

definition no_unicode :: unicode where
  "no_unicode = \<lparr>u_tolower = (\<lambda>c. c), u_iscased = (\<lambda>c. False),
                  u_fixes = (\<lambda>c. []), u_lower = (\<lambda>s. s)\<rparr>"

definition borobudur :: place where
  "borobudur = \<lparr>Place_Id = 1, Place_Name = ''Borobudur Temple'',
                Description = Some ''Visit Borobudur for sunrise''\<rparr>"

definition mendut :: place where
  "mendut = \<lparr>Place_Id = 2, Place_Name = ''Candi Mendut'', Description = None\<rparr>"

definition punthuk :: place where
  "punthuk = \<lparr>Place_Id = 3, Place_Name = ''Punthuk Setumbu'',
              Description = Some ''Sunrise over Borobudur''\<rparr>"


definition sample_places :: "place list" where
  "sample_places = [borobudur, mendut, punthuk]"

definition sample_ratings :: "rating list" where
  "sample_ratings =
     [\<lparr>User_Id = 7, Rated_Place_Id = 1, Rated_Place_Name = ''Borobudur Temple'', Place_Rating = 4\<rparr>,
      \<lparr>User_Id = 8, Rated_Place_Id = 1, Rated_Place_Name = ''borobudur temple'', Place_Rating = 5\<rparr>,
      \<lparr>User_Id = 9, Rated_Place_Id = 1, Rated_Place_Name = ''Borobudur Temple'', Place_Rating = 3\<rparr>]"

definition sample_model :: "int \<Rightarrow> int \<Rightarrow> real" where
  "sample_model u p = (if p = 3 then 5 else 3)"

section \<open>Properties of the recommendation\<close>

lemma lookup_name_in_catalogue:
  "p \<in> Place_Id ` set place_df \<Longrightarrow> \<exists>nm. lookup_name place_df p = Inr nm"
proof -
  assume "p \<in> Place_Id ` set place_df"
  then have "filter (\<lambda>r. Place_Id r = p) place_df \<noteq> []"
    by (auto simp: filter_empty_conv)
  then have "name_values place_df p \<noteq> []"
    by (simp add: name_values_def)
  then show ?thesis
    by (cases "name_values place_df p") (simp_all add: lookup_name_def)
qed

lemma predict_loop_total:
  "set ps \<subseteq> Place_Id ` set place_df \<Longrightarrow>
     \<exists>preds. predict_loop place_df model u ps = Inr preds \<and> map fst preds = ps
        \<and> (\<forall>x \<in> set preds. est_of x = model u (fst x))"
proof (induction ps)
  case Nil
  then show ?case by simp
next
  case (Cons p ps)
  from Cons.prems obtain nm where nm: "lookup_name place_df p = Inr nm"
    using lookup_name_in_catalogue by fastforce
  from Cons obtain preds where
    "predict_loop place_df model u ps = Inr preds" "map fst preds = ps"
    "\<forall>x \<in> set preds. est_of x = model u (fst x)"
    by auto
  with nm show ?case
    by (simp add: predict_rating_def est_of_def)
qed

lemma unrated_in_catalogue: "set (unrated rating_df place_df u) \<subseteq> Place_Id ` set place_df"
  by (auto simp: unrated_def)

lemma sort_reverse_mset: "mset (sort_reverse key xs) = mset xs"
  by (simp add: sort_reverse_def)

lemma sort_reverse_set: "set (sort_reverse key xs) = set xs"
  by (simp add: sort_reverse_def)

lemma sort_reverse_length: "length (sort_reverse key xs) = length xs"
  by (simp add: sort_reverse_def)

lemma sort_reverse_sorted: "sorted_wrt (\<lambda>a b. key b \<le> key a) (sort_reverse key xs)"
proof -
  have "sorted (map key (sort_key key (rev xs)))"
    by simp
  then have "sorted_wrt (\<lambda>a b. key a \<le> key b) (sort_key key (rev xs))"
    by (simp add: sorted_map)
  then show ?thesis
    unfolding sort_reverse_def by (simp add: sorted_wrt_rev)
qed

lemma sorted_wrt_slice_to: "sorted_wrt R xs \<Longrightarrow> sorted_wrt R (slice_to n xs)"
  by (simp add: slice_to_def)

lemma set_slice_to: "set (slice_to n xs) \<subseteq> set xs"
  by (auto simp: slice_to_def dest: in_set_takeD)


lemma rated_places_seen: "set (rated_places rating_df u) = seen_set rating_df u"
  by (auto simp: rated_places_def seen_set_def)

lemma unrated_candidates: "unrated rating_df place_df u = candidates rating_df place_df u"
  by (simp add: unrated_def candidates_def rated_places_seen)

lemma recommend_places_full:
  "\<exists>preds. predict_loop place_df model u (unrated rating_df place_df u) = Inr preds
      \<and> map fst preds = candidates rating_df place_df u
      \<and> (\<forall>x \<in> set preds. est_of x = model u (fst x))
      \<and> (\<forall>n. recommend_places rating_df place_df model u n
              = Inr (slice_to n (sort_reverse est_of preds)))"
proof -
  obtain preds where p: "predict_loop place_df model u (unrated rating_df place_df u) = Inr preds"
    "map fst preds = unrated rating_df place_df u"
    "\<forall>x \<in> set preds. est_of x = model u (fst x)"
    using predict_loop_total [OF unrated_in_catalogue] by blast
  then show ?thesis
    by (simp add: recommend_places_def unrated_candidates)
qed

lemma candidates_unseen: "p \<in> set (candidates rating_df place_df u) \<Longrightarrow> p \<notin> seen_set rating_df u"
  by (simp add: candidates_def)

lemma candidates_count:
  assumes "distinct (map Place_Id place_df)" and "seen_set rating_df u \<subseteq> Place_Id ` set place_df"
  shows "length (candidates rating_df place_df u) = length place_df - card (seen_set rating_df u)"
proof -
  let ?ids = "map Place_Id place_df"
  let ?S = "seen_set rating_df u"
  have "distinct (filter (\<lambda>p. p \<in> ?S) ?ids)"
    using assms(1) by simp
  then have "length (filter (\<lambda>p. p \<in> ?S) ?ids) = card (set (filter (\<lambda>p. p \<in> ?S) ?ids))"
    by (rule distinct_card [symmetric])
  also have "set (filter (\<lambda>p. p \<in> ?S) ?ids) = ?S"
    using assms(2) by auto
  finally have "length (filter (\<lambda>p. p \<in> ?S) ?ids) = card ?S" .
  moreover have "length (filter (\<lambda>p. p \<in> ?S) ?ids) + length (filter (\<lambda>p. p \<notin> ?S) ?ids) = length ?ids"
    by (rule sum_length_filter_compl)
  ultimately show ?thesis
    by (simp add: candidates_def)
qed

text \<open>
  Claim C1. For every user and every \<open>top_n \<ge> 0\<close>, \<open>recommend_places\<close> returns without
  an exception at most \<open>top_n\<close> results; no result is a place of the user's seen set; each
  carries the estimate of the model; the results are in descending order of the estimate;
  and when there are at most \<open>top_n\<close> candidates, the results are exactly the candidates.
  With unique catalogue ids and a seen set inside the catalogue, the number of candidates
  is the catalogue size minus the size of the seen set.
\<close>

theorem recommend_places_top_n:
  assumes "0 \<le> n"
  shows "(\<exists>res. recommend_places rating_df place_df model u n = Inr res
            \<and> int (length res) \<le> n
            \<and> (\<forall>x \<in> set res. fst x \<notin> seen_set rating_df u)
            \<and> (\<forall>x \<in> set res. est_of x = model u (fst x))
            \<and> sorted_wrt (\<lambda>a b. est_of b \<le> est_of a) res
            \<and> (int (length (candidates rating_df place_df u)) \<le> n \<longrightarrow>
                 mset (map fst res) = mset (candidates rating_df place_df u)))
         \<and> (distinct (map Place_Id place_df)
              \<and> seen_set rating_df u \<subseteq> Place_Id ` set place_df \<longrightarrow>
            length (candidates rating_df place_df u)
              = length place_df - card (seen_set rating_df u))"
proof -
  obtain preds where p:
    "map fst preds = candidates rating_df place_df u"
    "\<forall>x \<in> set preds. est_of x = model u (fst x)"
    "recommend_places rating_df place_df model u n = Inr (slice_to n (sort_reverse est_of preds))"
    using recommend_places_full [of place_df model u rating_df] by blast
  let ?all = "sort_reverse est_of preds"
  let ?res = "slice_to n ?all"
  have sub: "set ?res \<subseteq> set preds"
    using set_slice_to [of n ?all] by (simp add: sort_reverse_set)
  have len: "int (length ?res) \<le> n"
    using assms by (simp add: slice_to_def)
  have unseen: "\<forall>x \<in> set ?res. fst x \<notin> seen_set rating_df u"
  proof
    fix x assume "x \<in> set ?res"
    with sub have "fst x \<in> set (map fst preds)" by auto
    then show "fst x \<notin> seen_set rating_df u"
      by (simp add: p(1) candidates_unseen)
  qed
  have est: "\<forall>x \<in> set ?res. est_of x = model u (fst x)"
    using sub p(2) by blast
  have srt: "sorted_wrt (\<lambda>a b. est_of b \<le> est_of a) ?res"
    by (rule sorted_wrt_slice_to) (rule sort_reverse_sorted)
  have all: "int (length (candidates rating_df place_df u)) \<le> n \<longrightarrow>
               mset (map fst ?res) = mset (candidates rating_df place_df u)"
  proof
    assume "int (length (candidates rating_df place_df u)) \<le> n"
    then have "length ?all \<le> nat n"
      using p(1) by (metis length_map sort_reverse_length nat_int nat_mono)
    then have "?res = ?all"
      using assms by (simp add: slice_to_def)
    then have "mset (map fst ?res) = image_mset fst (mset preds)"
      by (simp add: sort_reverse_mset)
    also have "\<dots> = mset (map fst preds)" by simp
    finally show "mset (map fst ?res) = mset (candidates rating_df place_df u)"
      by (simp add: p(1))
  qed
  from p(3) len unseen est srt all candidates_count [of place_df rating_df u]
  show ?thesis by blast
qed

text \<open>The sample tables at \<open>top_n = 2\<close>: user 7 has rated place 1 of three.\<close>

theorem recommend_places_top_n_witness:
  "(0::int) \<le> 2
   \<and> recommend_places sample_ratings sample_places sample_model 7 2
       = Inr [(3, ''Punthuk Setumbu'', 5), (2, ''Candi Mendut'', 3)]
   \<and> int (length (candidates sample_ratings sample_places 7)) \<le> 2
   \<and> distinct (map Place_Id sample_places)
   \<and> seen_set sample_ratings 7 \<subseteq> Place_Id ` set sample_places
   \<and> length (candidates sample_ratings sample_places 7)
       = length sample_places - card (seen_set sample_ratings 7)"
proof -
  have h: "(0::int) \<le> 2" by simp
  have "rated_places sample_ratings 7 = [1]"
    by (simp add: rated_places_def sample_ratings_def)
  then have seen: "seen_set sample_ratings 7 = {1}"
    using rated_places_seen [of sample_ratings 7] by simp
  have ids: "map Place_Id sample_places = [1, 2, 3]"
    by (simp add: sample_places_def borobudur_def mendut_def punthuk_def)
  have cands: "candidates sample_ratings sample_places 7 = [2, 3]"
    by (simp add: candidates_def seen ids)
  have d: "distinct (map Place_Id sample_places)"
    by (simp add: ids)
  have "set (map Place_Id sample_places) = {1, 2, 3}"
    by (simp add: ids)
  then have sub: "seen_set sample_ratings 7 \<subseteq> Place_Id ` set sample_places"
    by (simp add: seen)
  have res: "recommend_places sample_ratings sample_places sample_model 7 2
               = Inr [(3, ''Punthuk Setumbu'', 5), (2, ''Candi Mendut'', 3)]"
    by code_simp
  have "distinct (map Place_Id sample_places)
          \<and> seen_set sample_ratings 7 \<subseteq> Place_Id ` set sample_places \<longrightarrow>
        length (candidates sample_ratings sample_places 7)
          = length sample_places - card (seen_set sample_ratings 7)"
    using recommend_places_top_n [OF h, of sample_ratings sample_places sample_model 7]
    by (rule conjunct2)
  with d sub have "length (candidates sample_ratings sample_places 7)
          = length sample_places - card (seen_set sample_ratings 7)"
    by blast
  with h res d sub show ?thesis
    by (simp add: cands)
qed

text \<open>
  Claim C5 as stated fails for a negative \<open>top_n\<close>: at \<open>top_n = -1\<close> the slice drops the last
  of the two ranked candidates and one result is returned.
\<close>

theorem recommend_places_negative_counterexample:
  "recommend_places sample_ratings sample_places sample_model 7 (- 1)
     = Inr [(3, ''Punthuk Setumbu'', 5)]
   \<and> recommend_places sample_ratings sample_places sample_model 7 (- 1) \<noteq> Inr []"
proof -
  have "recommend_places sample_ratings sample_places sample_model 7 (- 1)
          = Inr [(3, ''Punthuk Setumbu'', 5)]"
    by code_simp
  then show ?thesis by simp
qed

text \<open>
  Claim C5, amended. For \<open>top_n = 0\<close> the result is empty. For a negative \<open>top_n\<close> the result
  is the complete ranking (the one returned for a \<open>top_n\<close> as large as the catalogue)
  without its last \<open>- top_n\<close> entries, hence empty only when there are at most \<open>- top_n\<close>
  candidates.
\<close>

theorem recommend_places_nonpositive:
  assumes "n < 0"
  shows "recommend_places rating_df place_df model u 0 = Inr []
         \<and> (\<exists>full. recommend_places rating_df place_df model u (int (length place_df)) = Inr full
               \<and> mset (map fst full) = mset (candidates rating_df place_df u)
               \<and> recommend_places rating_df place_df model u n
                   = Inr (take (length full - nat (- n)) full))"
proof -
  obtain preds where p:
    "map fst preds = candidates rating_df place_df u"
    "\<forall>k. recommend_places rating_df place_df model u k
           = Inr (slice_to k (sort_reverse est_of preds))"
    using recommend_places_full [of place_df model u rating_df] by blast
  let ?all = "sort_reverse est_of preds"
  have "length preds = length (candidates rating_df place_df u)"
    using p(1) by (metis length_map)
  also have "\<dots> \<le> length place_df"
    by (simp add: candidates_def)
  finally have "slice_to (int (length place_df)) ?all = ?all"
    by (simp add: slice_to_def sort_reverse_length)
  then have full: "recommend_places rating_df place_df model u (int (length place_df)) = Inr ?all"
    by (simp add: p(2))
  have "mset (map fst ?all) = image_mset fst (mset preds)"
    by (simp add: sort_reverse_mset)
  then have perm: "mset (map fst ?all) = mset (candidates rating_df place_df u)"
    using p(1) by (metis mset_map)
  have "slice_to n ?all = take (length ?all - nat (- n)) ?all"
  proof -
    have "nat (int (length ?all) + n) = length ?all - nat (- n)"
      using assms by linarith
    with assms show ?thesis
      by (simp add: slice_to_def)
  qed
  then have neg: "recommend_places rating_df place_df model u n
                    = Inr (take (length ?all - nat (- n)) ?all)"
    by (simp add: p(2))
  have zero: "recommend_places rating_df place_df model u 0 = Inr []"
    by (simp add: p(2) slice_to_def)
  from zero full perm neg show ?thesis by blast
qed

text \<open>The sample tables at \<open>top_n = -2\<close>, with two candidates.\<close>

theorem recommend_places_nonpositive_witness:
  "(- 2::int) < 0
   \<and> recommend_places sample_ratings sample_places sample_model 7 0 = Inr []
   \<and> recommend_places sample_ratings sample_places sample_model 7 (int (length sample_places))
       = Inr [(3, ''Punthuk Setumbu'', 5), (2, ''Candi Mendut'', 3)]
   \<and> recommend_places sample_ratings sample_places sample_model 7 (- 2) = Inr []"
proof -
  have h: "(- 2::int) < 0" by simp
  have a: "recommend_places sample_ratings sample_places sample_model 7 0 = Inr []"
    using recommend_places_nonpositive [OF h, of sample_ratings sample_places sample_model 7]
    by (rule conjunct1)
  have b: "recommend_places sample_ratings sample_places sample_model 7 (int (length sample_places))
       = Inr [(3, ''Punthuk Setumbu'', 5), (2, ''Candi Mendut'', 3)]"
    by code_simp
  have c: "recommend_places sample_ratings sample_places sample_model 7 (- 2) = Inr []"
    by code_simp
  from h a b c show ?thesis by blast
qed

text \<open>
  Claim C9. Every id of the unrated list has a non-empty selection of names in the
  catalogue, so that element 0 exists, and \<open>recommend_places\<close> returns a result for
  every user id and every \<open>top_n\<close>.
\<close>

theorem recommend_places_total:
  "(\<forall>p \<in> set (unrated rating_df place_df u).
       name_values place_df p \<noteq> [] \<and> (\<exists>nm. lookup_name place_df p = Inr nm))
   \<and> (\<exists>res. recommend_places rating_df place_df model u n = Inr res)"
proof -
  have "\<forall>p \<in> set (unrated rating_df place_df u).
          name_values place_df p \<noteq> [] \<and> (\<exists>nm. lookup_name place_df p = Inr nm)"
  proof
    fix p assume "p \<in> set (unrated rating_df place_df u)"
    then have "p \<in> Place_Id ` set place_df"
      using unrated_in_catalogue by blast
    then obtain nm where "lookup_name place_df p = Inr nm"
      using lookup_name_in_catalogue by blast
    then show "name_values place_df p \<noteq> [] \<and> (\<exists>nm. lookup_name place_df p = Inr nm)"
      by (auto simp: lookup_name_def split: list.splits)
  qed
  moreover have "\<exists>res. recommend_places rating_df place_df model u n = Inr res"
    using recommend_places_full [of place_df model u rating_df] by blast
  ultimately show ?thesis by blast
qed

text \<open>The sample tables: the two unrated ids have a name each.\<close>

theorem recommend_places_total_witness:
  "unrated sample_ratings sample_places 7 = [2, 3]
   \<and> name_values sample_places 2 \<noteq> []
   \<and> name_values sample_places 3 \<noteq> []
   \<and> recommend_places sample_ratings sample_places sample_model 7 1
       = Inr [(3, ''Punthuk Setumbu'', 5)]"
proof -
  have a: "unrated sample_ratings sample_places 7 = [2, 3]"
    by code_simp
  have "\<forall>p \<in> set (unrated sample_ratings sample_places 7).
          name_values sample_places p \<noteq> [] \<and> (\<exists>nm. lookup_name sample_places p = Inr nm)"
    using recommend_places_total [of sample_ratings sample_places 7 sample_model 1]
    by (rule conjunct1)
  then have b: "name_values sample_places 2 \<noteq> [] \<and> name_values sample_places 3 \<noteq> []"
    by (simp add: a)
  have d: "recommend_places sample_ratings sample_places sample_model 7 1
       = Inr [(3, ''Punthuk Setumbu'', 5)]"
    by code_simp
  from a b d show ?thesis by blast
qed

section \<open>Properties of the search\<close>

text \<open>Characters and code points.\<close>

lemma of_char_bound: "(of_char d :: nat) < 256"
proof -
  have "(of_char d :: nat) mod 256 = of_char d"
    by simp
  then show ?thesis
    by (metis mod_less_divisor zero_less_numeral)
qed

lemma of_char_lower_char:
  "(of_char (lower_char d) :: nat) = ascii_lower (of_char d)"
proof (cases "65 \<le> (of_char d :: nat) \<and> (of_char d :: nat) \<le> 90")
  case True
  then have "((of_char d :: nat) + 32) mod 256 = of_char d + 32"
    by simp
  with True show ?thesis
    by (simp add: lower_char_def ascii_lower_def Let_def)
next
  case False
  then show ?thesis
    by (auto simp: lower_char_def ascii_lower_def Let_def)
qed


lemma ascii_lower_idem: "ascii_lower (ascii_lower c) = ascii_lower c"
  by (simp add: ascii_lower_def)

lemma atom_ok_ascii:
  assumes "c < 128"
  shows "atom_ok uni (Lit c) d \<longleftrightarrow> ascii_lower (of_char d) = ascii_lower c"
proof -
  have b: "(of_char d :: nat) < 256"
    by (rule of_char_bound)
  show ?thesis
  proof (cases "iscased uni c")
    case True
    with assms have letter: "(65 \<le> c \<and> c \<le> 90) \<or> (97 \<le> c \<and> c \<le> 122)"
      by (simp add: iscased_def)
    have lo: "tolower uni c = ascii_lower c"
      using assms by (simp add: tolower_def)
    have low: "ascii_lower c < 128"
      using assms letter by (auto simp: ascii_lower_def)
    have fx: "\<forall>x \<in> set (ignorecase_fixes uni (ascii_lower c)). 256 \<le> x"
      using low by (simp add: ignorecase_fixes_def long_s_def dotless_i_def)
    have al: "ascii_lower (of_char d) < 256"
      using b by (auto simp: ascii_lower_def)
    from True lo fx al show ?thesis
      by (auto simp: of_char_lower_char Let_def)
  next
    case False
    with assms have nl: "\<not> ((65 \<le> c \<and> c \<le> 90) \<or> (97 \<le> c \<and> c \<le> 122))"
      by (simp add: iscased_def)
    from False have "atom_ok uni (Lit c) d \<longleftrightarrow> of_char d = c"
      by simp
    also have "\<dots> \<longleftrightarrow> ascii_lower (of_char d) = ascii_lower c"
      using nl by (auto simp: ascii_lower_def)
    finally show ?thesis .
  qed
qed

text \<open>Keywords that the model interprets.\<close>

lemma dot_meta: "dot \<in> set metachars"
  by (simp add: metachars_def codes_def dot_def)

lemma backslash_meta: "backslash \<in> set metachars"
  by (simp add: metachars_def)

lemma dot_not_backslash: "dot \<noteq> backslash"
  by (simp add: dot_def backslash_def)

lemma parse_atoms_plain: "plain pat \<Longrightarrow> parse_atoms pat = Some (map atom_of pat)"
proof (induction pat)
  case Nil
  then show ?case by simp
next
  case (Cons c cs)
  then have c: "c = dot \<or> c \<notin> set metachars" and cs: "plain cs"
    by (simp_all add: plain_def)
  from c have "c \<noteq> backslash"
    using backslash_meta dot_not_backslash by auto
  with c Cons.IH [OF cs] show ?case
    by (auto simp: atom_of_def)
qed

lemma no_meta_plain: "no_meta pat \<Longrightarrow> plain pat"
  by (simp add: no_meta_def plain_def list_all_iff)

lemma no_meta_atoms: "no_meta pat \<Longrightarrow> map atom_of pat = map Lit pat"
  using dot_meta by (auto simp: no_meta_def atom_of_def list_all_iff)

lemma parse_atoms_no_meta: "no_meta pat \<Longrightarrow> parse_atoms pat = Some (map Lit pat)"
  using parse_atoms_plain [OF no_meta_plain] no_meta_atoms by metis

lemma match_here_literal:
  "ascii pat \<Longrightarrow>
     match_here uni (map Lit pat) s = prefix (map ascii_lower pat) (codes (lower s))"
proof (induction pat arbitrary: s)
  case Nil
  then show ?case by simp
next
  case (Cons c cs)
  then have c: "c < 128" and cs: "ascii cs"
    by (simp_all add: ascii_def)
  show ?case
  proof (cases s)
    case Nil
    then show ?thesis by (simp add: codes_def lower_def)
  next
    case (Cons d ds)
    have "codes (lower (d # ds)) = ascii_lower (of_char d) # codes (lower ds)"
      by (simp add: codes_def lower_def of_char_lower_char)
    with Cons Cons.IH [OF cs, of ds] atom_ok_ascii [OF c, of uni d] show ?thesis
      by (simp del: atom_ok.simps) metis
  qed
qed

lemma re_search_literal:
  "ascii pat \<Longrightarrow> re_search uni (map Lit pat) s = contains_literal pat s"
proof (induction s)
  case Nil
  then show ?case
    by (cases pat) (simp_all add: contains_literal_def codes_def lower_def)
next
  case (Cons d ds)
  have "codes (lower (d # ds)) = ascii_lower (of_char d) # codes (lower ds)"
    by (simp add: codes_def lower_def of_char_lower_char)
  then show ?case
    using Cons by (simp add: match_here_literal contains_literal_def sublist_Cons_right)
qed

lemma re_compile_no_meta:
  assumes "no_meta pat" and "ascii pat"
  shows "re_compile uni ext pat = Inr (contains_literal pat)"
proof -
  have "parse_atoms pat = Some (map Lit pat)"
    using assms(1) by (rule parse_atoms_no_meta)
  moreover have "re_search uni (map Lit pat) = contains_literal pat"
    by (rule ext) (rule re_search_literal [OF assms(2)])
  ultimately show ?thesis
    by (simp add: re_compile_def)
qed













text \<open>The rows that are kept and the rows that are taken.\<close>

lemma set_drop_duplicates: "set (drop_duplicates xs) = set xs"
  by (induction xs rule: drop_duplicates.induct) auto

lemma distinct_drop_duplicates: "distinct (drop_duplicates xs)"
  by (induction xs rule: drop_duplicates.induct) (auto simp: set_drop_duplicates)

lemma take_rows_permutation:
  assumes "nargsort_ok srt" and "length rows = length keys"
  shows "\<exists>res. take_rows rows (srt keys) = Inr res \<and> mset res = mset rows
            \<and> res = map (\<lambda>i. rows ! i) (srt keys)"
proof -
  from assms(1) have m: "mset (srt keys) = mset [0..<length keys]"
    by (simp add: nargsort_ok_def)
  then have "set (srt keys) = set [0..<length keys]"
    by (metis set_mset_mset)
  then have inb: "list_all (\<lambda>i. i < length rows) (srt keys)"
    using assms(2) by (simp add: list_all_iff)
  have "mset (map (\<lambda>i. rows ! i) (srt keys)) = image_mset (\<lambda>i. rows ! i) (mset (srt keys))"
    by simp
  also have "\<dots> = mset (map (\<lambda>i. rows ! i) [0..<length rows])"
    using m assms(2) by simp
  also have "\<dots> = mset rows"
    by (simp add: map_nth)
  finally show ?thesis
    using inb by (simp add: take_rows_def)
qed

lemma take_rows_sorted:
  assumes "nargsort_ok srt" and "length rs = length keys"
  shows "sorted_wrt (\<lambda>a b. snd b \<le> snd a) (map (\<lambda>i. zip rs keys ! i) (srt keys))"
proof -
  from assms(1) have m: "mset (srt keys) = mset [0..<length keys]"
    and s: "sorted_wrt (\<lambda>i j. keys ! j \<le> keys ! i) (srt keys)"
    by (simp_all add: nargsort_ok_def)
  from m have inb: "\<forall>i \<in> set (srt keys). i < length keys"
    by (metis set_mset_mset atLeastLessThan_iff set_upt)
  have "sorted_wrt (\<lambda>i j. snd (zip rs keys ! j) \<le> snd (zip rs keys ! i)) (srt keys)"
    using s
  proof (rule sorted_wrt_mono_rel [rotated])
    fix i j assume "i \<in> set (srt keys)" "j \<in> set (srt keys)" "keys ! j \<le> keys ! i"
    with inb assms(2) show "snd (zip rs keys ! j) \<le> snd (zip rs keys ! i)"
      by simp
  qed
  then show ?thesis
    by (simp add: sorted_wrt_map)
qed

lemma set_matched:
  "set (matched found place_df)
     = {r \<in> set place_df. found (Place_Name r) \<or> str_contains found (Description r)}"
  by (auto simp: matched_def set_drop_duplicates str_contains_def)

lemma distinct_matched: "distinct (matched found place_df)"
  by (simp add: matched_def distinct_drop_duplicates)

lemma stable_nargsort_ok: "nargsort_ok stable_nargsort"
  unfolding nargsort_ok_def stable_nargsort_def
  by (simp add: sort_reverse_mset sort_reverse_sorted)

text \<open>The outcome of a search.\<close>

text \<open>
  On a non-empty table without any description, every keyword that compiles raises
  \<open>AttributeError\<close> at line 76.
\<close>

lemma search_place_float_column:
  assumes "re_compile uni ext kw = Inr found" and "place_df \<noteq> []"
    and "\<forall>r \<in> set place_df. Description r = None"
  shows "search_place uni ext srt place_df kw = Inl AttributeError"
proof -
  have "float_column place_df"
    using assms(2,3) by (simp add: float_column_def list_all_iff)
  with assms(1) show ?thesis
    by (simp add: search_place_def)
qed

lemma search_place_without_description:
  "search_place no_unicode no_ext stable_nargsort [mendut] [] = Inl AttributeError"
  by code_simp

lemma search_place_rows:
  assumes ok: "nargsort_ok srt" and c: "re_compile uni ext kw = Inr found"
    and nf: "\<not> float_column place_df"
  shows "\<exists>res. search_place uni ext srt place_df kw = Inr res
           \<and> mset res = mset (map (\<lambda>r. (r, relevance_score (str_lower uni kw) r))
                                (matched found place_df))
           \<and> sorted_wrt (\<lambda>a b. snd b \<le> snd a) res"
proof (cases "matched found place_df = []")
  case True
  with c nf show ?thesis
    by (simp add: search_place_def matched_def)
next
  case False
  let ?rs = "matched found place_df"
  let ?keys = "map (relevance_score (str_lower uni kw)) ?rs"
  have len: "length (zip ?rs ?keys) = length ?keys" "length ?rs = length ?keys"
    by simp_all
  obtain res where r: "take_rows (zip ?rs ?keys) (srt ?keys) = Inr res"
    "mset res = mset (zip ?rs ?keys)" "res = map (\<lambda>i. zip ?rs ?keys ! i) (srt ?keys)"
    using take_rows_permutation [OF ok len(1)] by blast
  have z: "zip ?rs ?keys = map (\<lambda>r. (r, relevance_score (str_lower uni kw) r)) ?rs"
    by (simp add: zip_map2 zip_same_conv_map)
  have "sorted_wrt (\<lambda>a b. snd b \<le> snd a) res"
    unfolding r(3) by (rule take_rows_sorted [OF ok len(2)])
  moreover have "search_place uni ext srt place_df kw = Inr res"
    using c nf False r(1) by (simp add: search_place_def matched_def Let_def)
  ultimately show ?thesis
    using r(2) z by auto
qed

lemma search_place_result:
  assumes ok: "nargsort_ok srt" and c: "re_compile uni ext kw = Inr found"
    and nf: "\<not> float_column place_df"
  shows "\<exists>res. search_place uni ext srt place_df kw = Inr res
           \<and> mset (map fst res) = mset (matched found place_df)
           \<and> (\<forall>x \<in> set res. snd x = relevance_score (str_lower uni kw) (fst x))
           \<and> sorted_wrt (\<lambda>a b. snd b \<le> snd a) res"
proof -
  let ?rows = "map (\<lambda>r. (r, relevance_score (str_lower uni kw) r)) (matched found place_df)"
  obtain res where r: "search_place uni ext srt place_df kw = Inr res" "mset res = mset ?rows"
    "sorted_wrt (\<lambda>a b. snd b \<le> snd a) res"
    using search_place_rows [OF ok c nf] by blast
  from r(2) have "mset (map fst res) = mset (map fst ?rows)"
    by (metis mset_map)
  then have a: "mset (map fst res) = mset (matched found place_df)"
    by (simp add: comp_def)
  from r(2) have "set res = set ?rows"
    by (rule mset_eq_setD)
  then have b: "\<forall>x \<in> set res. snd x = relevance_score (str_lower uni kw) (fst x)"
    by auto
  from r(1) r(3) a b show ?thesis by blast
qed

lemma search_place_Inr:
  assumes "search_place uni ext srt place_df kw = Inr res"
  shows "\<exists>found. re_compile uni ext kw = Inr found \<and> \<not> float_column place_df"
proof (cases "re_compile uni ext kw")
  case (Inl e)
  with assms show ?thesis
    by (simp add: search_place_def)
next
  case (Inr found)
  with assms have "\<not> float_column place_df"
    by (auto simp: search_place_def split: if_splits)
  with Inr show ?thesis by blast
qed

lemma search_place_returned:
  assumes "nargsort_ok srt" and "search_place uni ext srt place_df kw = Inr res"
  shows "\<exists>found. re_compile uni ext kw = Inr found
           \<and> mset (map fst res) = mset (matched found place_df)
           \<and> (\<forall>x \<in> set res. snd x = relevance_score (str_lower uni kw) (fst x))"
proof -
  obtain found where f: "re_compile uni ext kw = Inr found" "\<not> float_column place_df"
    using search_place_Inr [OF assms(2)] by blast
  from search_place_result [OF assms(1) f] assms(2) f(1) show ?thesis
    by auto
qed


text \<open>\<open>str.lower\<close> on the alphabet and on what is not a capital letter.\<close>

lemma lower_alphabet:
  "lower ''ABCDEFGHIJKLMNOPQRSTUVWXYZ'' = ''abcdefghijklmnopqrstuvwxyz''"
  by code_simp

lemma lower_others:
  "lower ''abcdefghijklmnopqrstuvwxyz0123456789 .,;:!?()[]{}@`^_-+*/'' =
     ''abcdefghijklmnopqrstuvwxyz0123456789 .,;:!?()[]{}@`^_-+*/''"
  by code_simp








text \<open>The rows that a keyword of ordinary ASCII characters matches.\<close>

lemma literal_matched:
  "{r \<in> set place_df. contains_literal kw (Place_Name r)
        \<or> str_contains (contains_literal kw) (Description r)}
     = {r \<in> set place_df. literal_match kw r}"
  by (auto simp: literal_match_def str_contains_def split: option.splits)

text \<open>
  Claim C4 as stated fails for a keyword with a special character: the keyword is a
  regular expression, and a single dot matches the name and the description of a place
  that contain no dot.
\<close>

theorem search_place_dot_counterexample:
  "search_place no_unicode no_ext stable_nargsort [borobudur] [dot] = Inr [(borobudur, 0)]
   \<and> \<not> literal_match [dot] borobudur"
proof -
  have "search_place no_unicode no_ext stable_nargsort [borobudur] [dot]
          = Inr [(borobudur, 0)]"
    by code_simp
  moreover have "\<not> literal_match [dot] borobudur"
    by code_simp
  ultimately show ?thesis by blast
qed

text \<open>
  Claim C4, amended. Whatever the keyword, a search that returns has no row twice. For
  a keyword of ASCII characters without a special character of regular expressions, and
  a table whose column of descriptions holds text, the search returns, without an
  exception, exactly the rows of the catalogue whose name or non-null description
  contains the keyword as a literal substring, letters compared without case; a row with
  a null description matches by its name only.
\<close>

theorem search_place_literal:
  assumes "nargsort_ok srt"
  shows "(\<forall>res. search_place uni ext srt place_df kw = Inr res \<longrightarrow> distinct (map fst res))
         \<and> (no_meta kw \<and> ascii kw \<and> \<not> float_column place_df \<longrightarrow>
             (\<exists>res. search_place uni ext srt place_df kw = Inr res
                \<and> set (map fst res) = {r \<in> set place_df. literal_match kw r}))"
proof -
  have once: "distinct (map fst res)"
    if ret: "search_place uni ext srt place_df kw = Inr res" for res
  proof -
    obtain found where "mset (map fst res) = mset (matched found place_df)"
      using search_place_returned [OF assms ret] by blast
    then have "distinct (map fst res) = distinct (matched found place_df)"
      by (rule mset_eq_imp_distinct_iff)
    then show ?thesis
      by (simp add: distinct_matched)
  qed
  have lit: "\<exists>res. search_place uni ext srt place_df kw = Inr res
                \<and> set (map fst res) = {r \<in> set place_df. literal_match kw r}"
    if nm: "no_meta kw" and asc: "ascii kw" and nf: "\<not> float_column place_df"
  proof -
    have c: "re_compile uni ext kw = Inr (contains_literal kw)"
      using nm asc by (rule re_compile_no_meta)
    obtain res where r: "search_place uni ext srt place_df kw = Inr res"
      "mset (map fst res) = mset (matched (contains_literal kw) place_df)"
      using search_place_result [OF assms c nf] by blast
    from r(2) have "set (map fst res) = set (matched (contains_literal kw) place_df)"
      by (rule mset_eq_setD)
    then have "set (map fst res) = {r \<in> set place_df. literal_match kw r}"
      by (simp only: set_matched literal_matched)
    with r(1) show ?thesis by blast
  qed
  from once lit show ?thesis by blast
qed

text \<open>
  The sample catalogue searched for \<open>OVER\<close>: one description contains it, in another
  case; the place without a description is not returned.
\<close>

theorem search_place_literal_witness:
  "nargsort_ok stable_nargsort
   \<and> no_meta (codes ''OVER'') \<and> ascii (codes ''OVER'') \<and> \<not> float_column sample_places
   \<and> search_place no_unicode no_ext stable_nargsort sample_places (codes ''OVER'')
       = Inr [(punthuk, 1)]
   \<and> distinct (map fst [(punthuk, 1::int)])
   \<and> {r \<in> set sample_places. literal_match (codes ''OVER'') r} = {punthuk}"
proof -
  have n: "no_meta (codes ''OVER'')"
    by code_simp
  have a: "ascii (codes ''OVER'')"
    by code_simp
  have f: "\<not> float_column sample_places"
    by code_simp
  have s: "search_place no_unicode no_ext stable_nargsort sample_places (codes ''OVER'')
       = Inr [(punthuk, 1)]"
    by code_simp
  note t = search_place_literal [OF stable_nargsort_ok, of no_unicode no_ext sample_places
      "codes ''OVER''"]
  from t s have d: "distinct (map fst [(punthuk, 1::int)])"
    by blast
  from t n a f s have "{r \<in> set sample_places. literal_match (codes ''OVER'') r} = {punthuk}"
    by auto
  with n a f s d stable_nargsort_ok show ?thesis by blast
qed

text \<open>A keyword of ordinary ASCII characters that a row contains is counted in it.\<close>

lemma count_from_found: "sub \<noteq> [] \<Longrightarrow> sublist sub s \<Longrightarrow> 1 \<le> count_from sub s"
proof (induction s)
  case Nil
  then show ?case by simp
next
  case (Cons c cs)
  then show ?case
    by (cases "prefix sub (c # cs)") (auto simp: sublist_Cons_right)
qed

lemma str_count_found:
  assumes "kw \<noteq> []" and "contains_literal kw s"
  shows "1 \<le> str_count (codes (lower s)) (map ascii_lower kw)"
proof -
  from assms(1) have ne: "map ascii_lower kw \<noteq> []"
    by simp
  from assms(2) have "sublist (map ascii_lower kw) (codes (lower s))"
    by (simp add: contains_literal_def)
  with ne have "1 \<le> count_from (map ascii_lower kw) (codes (lower s))"
    by (rule count_from_found)
  with ne show ?thesis
    by (simp add: str_count_def)
qed

lemma str_count_nonneg: "0 \<le> str_count s sub"
  by (simp add: str_count_def)

lemma str_lower_ascii: "ascii kw \<Longrightarrow> str_lower uni kw = map ascii_lower kw"
  by (simp add: str_lower_def ascii_def interpreted_def list_all_iff)

lemma literal_match_relevance:
  assumes "kw \<noteq> []" and "literal_match kw r"
  shows "1 \<le> relevance_score (map ascii_lower kw) r"
proof (cases "contains_literal kw (Place_Name r)")
  case True
  then have "1 \<le> str_count (codes (lower (Place_Name r))) (map ascii_lower kw)"
    using assms(1) by (simp add: str_count_found)
  moreover have "0 \<le> (case Description r of
      Some d \<Rightarrow> str_count (codes (lower d)) (map ascii_lower kw) | None \<Rightarrow> 0)"
    by (simp add: str_count_nonneg split: option.split)
  ultimately show ?thesis
    by (simp add: relevance_score_def)
next
  case False
  with assms(2) obtain d where d: "Description r = Some d" "contains_literal kw d"
    by (auto simp: literal_match_def split: option.splits)
  then have "1 \<le> str_count (codes (lower d)) (map ascii_lower kw)"
    using assms(1) by (simp add: str_count_found)
  moreover have "0 \<le> str_count (codes (lower (Place_Name r))) (map ascii_lower kw)"
    by (rule str_count_nonneg)
  ultimately show ?thesis
    using d(1) by (simp add: relevance_score_def)
qed

text \<open>
  Claim C10 as stated fails for a keyword outside ASCII. The long s is no special
  character of regular expressions. Under \<open>IGNORECASE\<close> it matches the \<open>S\<close> of the name,
  so that the place is returned, while its lower case is itself and does not occur in the
  lower-case texts: the relevance is 0.
\<close>

theorem search_place_long_s_counterexample:
  "[long_s] \<noteq> [] \<and> no_meta [long_s]
   \<and> search_place no_unicode no_ext stable_nargsort [punthuk] [long_s] = Inr [(punthuk, 0)]"
proof -
  have "no_meta [long_s]"
    by code_simp
  moreover have "search_place no_unicode no_ext stable_nargsort [punthuk] [long_s]
      = Inr [(punthuk, 0)]"
    by code_simp
  ultimately show ?thesis by simp
qed

text \<open>
  Claim C10, amended. For every non-empty keyword of ASCII characters without a special
  character of regular expressions, every row of the result has a relevance of at least
  1.
\<close>

theorem search_place_relevance_positive:
  assumes "kw \<noteq> []" and "ascii kw" and "no_meta kw" and "nargsort_ok srt"
    and "search_place uni ext srt place_df kw = Inr res"
  shows "\<forall>x \<in> set res. 1 \<le> snd x"
proof
  fix x assume x: "x \<in> set res"
  have c: "re_compile uni ext kw = Inr (contains_literal kw)"
    using assms(3) assms(2) by (rule re_compile_no_meta)
  from search_place_returned [OF assms(4) assms(5)] c
  have m: "mset (map fst res) = mset (matched (contains_literal kw) place_df)"
    and sc: "\<forall>x \<in> set res. snd x = relevance_score (str_lower uni kw) (fst x)"
    by auto
  from m have "set (map fst res) = set (matched (contains_literal kw) place_df)"
    by (rule mset_eq_setD)
  then have "set (map fst res) = {r \<in> set place_df. literal_match kw r}"
    by (simp only: set_matched literal_matched)
  with x have "literal_match kw (fst x)"
    by auto
  then have "1 \<le> relevance_score (map ascii_lower kw) (fst x)"
    using assms(1) by (simp add: literal_match_relevance)
  with sc x show "1 \<le> snd x"
    by (simp add: str_lower_ascii [OF assms(2)])
qed

text \<open>The sample catalogue searched for \<open>Candi\<close>.\<close>

theorem search_place_relevance_positive_witness:
  "codes ''Candi'' \<noteq> [] \<and> ascii (codes ''Candi'') \<and> no_meta (codes ''Candi'')
   \<and> nargsort_ok stable_nargsort
   \<and> search_place no_unicode no_ext stable_nargsort sample_places (codes ''Candi'')
       = Inr [(mendut, 2)]
   \<and> (1::int) \<le> 2"
proof -
  have a: "codes ''Candi'' \<noteq> []" by (simp add: codes_def)
  have b: "ascii (codes ''Candi'')" by code_simp
  have c: "no_meta (codes ''Candi'')" by code_simp
  have s: "search_place no_unicode no_ext stable_nargsort sample_places (codes ''Candi'')
      = Inr [(mendut, 2)]"
    by code_simp
  from search_place_relevance_positive [OF a b c stable_nargsort_ok s]
  have "(1::int) \<le> 2"
    by simp
  with a b c s stable_nargsort_ok show ?thesis by blast
qed

text \<open>
  Claim C2 as stated fails: the empty keyword matches every name, and the search of the
  sample catalogue returns its three places.
\<close>

theorem search_place_empty_keyword_counterexample:
  "search_place no_unicode no_ext stable_nargsort sample_places []
     = Inr [(borobudur, 62), (punthuk, 55), (mendut, 26)]
   \<and> search_place no_unicode no_ext stable_nargsort sample_places [] \<noteq> Inr []"
proof -
  have "search_place no_unicode no_ext stable_nargsort sample_places []
     = Inr [(borobudur, 62), (punthuk, 55), (mendut, 26)]"
    by code_simp
  then show ?thesis by simp
qed

lemma contains_literal_empty: "contains_literal [] s"
  by (simp add: contains_literal_def)

lemma relevance_score_empty:
  "relevance_score (str_lower uni []) r
     = 2 * (int (length (Place_Name r)) + 1)
       + (case Description r of None \<Rightarrow> 0 | Some d \<Rightarrow> int (length d) + 1)"
  by (simp add: relevance_score_def str_count_def str_lower_def codes_def lower_def
      split: option.split)

text \<open>
  Claim C2, amended. On a table whose column of descriptions holds text, the search for
  the empty keyword raises no exception and returns every row of the catalogue once, with
  the relevance that \<open>str.count\<close> gives for the empty string (the length plus one,
  doubled for the name); the result is empty only for an empty catalogue. The page does
  not call the search for an empty query: it shows the prompt.
\<close>

theorem search_place_empty_keyword:
  assumes "nargsort_ok srt" and "\<not> float_column place_df"
  shows "(\<exists>res. search_place uni ext srt place_df [] = Inr res
            \<and> set (map fst res) = set place_df
            \<and> distinct (map fst res)
            \<and> (\<forall>x \<in> set res.
                  snd x = 2 * (int (length (Place_Name (fst x))) + 1)
                          + (case Description (fst x) of None \<Rightarrow> 0
                             | Some d \<Rightarrow> int (length d) + 1))
            \<and> (res = [] \<longleftrightarrow> place_df = []))
         \<and> main_page uni ext srt place_df [] = Prompt"
proof -
  have "no_meta []" and "ascii []"
    by (simp_all add: no_meta_def ascii_def)
  then have c: "re_compile uni ext [] = Inr (contains_literal [])"
    by (rule re_compile_no_meta)
  obtain res where r: "search_place uni ext srt place_df [] = Inr res"
    "mset (map fst res) = mset (matched (contains_literal []) place_df)"
    "\<forall>x \<in> set res. snd x = relevance_score (str_lower uni []) (fst x)"
    using search_place_result [OF assms(1) c assms(2)] by blast
  from r(2) have "set (map fst res) = set (matched (contains_literal []) place_df)"
    by (rule mset_eq_setD)
  then have a: "set (map fst res) = set place_df"
    by (simp add: set_matched contains_literal_empty)
  have "distinct (map fst res) = distinct (matched (contains_literal []) place_df)"
    using r(2) by (rule mset_eq_imp_distinct_iff)
  then have b: "distinct (map fst res)"
    by (simp add: distinct_matched)
  have s: "\<forall>x \<in> set res.
             snd x = 2 * (int (length (Place_Name (fst x))) + 1)
                     + (case Description (fst x) of None \<Rightarrow> 0 | Some d \<Rightarrow> int (length d) + 1)"
    using r(3) by (simp only: relevance_score_empty)
  have e: "res = [] \<longleftrightarrow> place_df = []"
    using a by (metis map_is_Nil_conv set_empty)
  have p: "main_page uni ext srt place_df [] = Prompt"
    by (simp add: main_page_def)
  from r(1) a b s e p show ?thesis by blast
qed

text \<open>A catalogue of one place searched for the empty keyword.\<close>

theorem search_place_empty_keyword_witness:
  "nargsort_ok stable_nargsort \<and> \<not> float_column [punthuk]
   \<and> search_place no_unicode no_ext stable_nargsort [punthuk] [] = Inr [(punthuk, 55)]
   \<and> main_page no_unicode no_ext stable_nargsort [punthuk] [] = Prompt"
proof -
  have f: "\<not> float_column [punthuk]"
    by code_simp
  have s: "search_place no_unicode no_ext stable_nargsort [punthuk] [] = Inr [(punthuk, 55)]"
    by code_simp
  have "main_page no_unicode no_ext stable_nargsort [punthuk] [] = Prompt"
    using search_place_empty_keyword [OF stable_nargsort_ok f, of no_unicode no_ext]
    by (rule conjunct2)
  with f s stable_nargsort_ok show ?thesis by blast
qed

text \<open>Keywords that differ in the case of their letters only.\<close>

lemma ascii_lower_dot: "c < 128 \<Longrightarrow> ascii_lower c = ascii_lower dot \<Longrightarrow> c = dot"
  by (auto simp: ascii_lower_def dot_def split: if_splits)

lemma atom_ok_same_case:
  assumes "c1 < 128" and "c2 < 128" and "ascii_lower c1 = ascii_lower c2"
  shows "atom_ok uni (atom_of c1) = atom_ok uni (atom_of c2)"
proof (cases "c1 = dot")
  case True
  with assms have "c2 = dot"
    using ascii_lower_dot [of c2] by simp
  with True show ?thesis by simp
next
  case False
  with assms have "c2 \<noteq> dot"
    using ascii_lower_dot [of c1] by auto
  with False have "atom_of c1 = Lit c1" "atom_of c2 = Lit c2"
    by (simp_all add: atom_of_def)
  moreover have "atom_ok uni (Lit c1) d = atom_ok uni (Lit c2) d" for d
    using assms by (simp only: atom_ok_ascii)
  ultimately show ?thesis
    by (simp only:) (rule ext, simp)
qed

lemma match_here_same_case:
  assumes "map (atom_ok uni) as = map (atom_ok uni) bs"
  shows "match_here uni as s = match_here uni bs s"
  using assms
proof (induction as arbitrary: bs s)
  case Nil
  then show ?case by simp
next
  case (Cons a as)
  then obtain b bs' where b: "bs = b # bs'" "atom_ok uni a = atom_ok uni b"
    "map (atom_ok uni) as = map (atom_ok uni) bs'"
    by (cases bs) auto
  show ?case
  proof (cases s)
    case Nil
    with b show ?thesis by simp
  next
    case (Cons d ds)
    with b Cons.IH [OF b(3), of ds] show ?thesis by simp
  qed
qed

lemma re_search_same_case:
  assumes "map (atom_ok uni) as = map (atom_ok uni) bs"
  shows "re_search uni as s = re_search uni bs s"
  by (induction s) (simp_all add: match_here_same_case [OF assms])

lemma atoms_same_case:
  "ascii k1 \<Longrightarrow> ascii k2 \<Longrightarrow> map ascii_lower k1 = map ascii_lower k2 \<Longrightarrow>
     map (atom_ok uni) (map atom_of k1) = map (atom_ok uni) (map atom_of k2)"
proof (induction k1 arbitrary: k2)
  case Nil
  then show ?case by simp
next
  case (Cons c cs)
  then obtain d ds where k2: "k2 = d # ds"
    by (cases k2) auto
  with Cons.prems have "c < 128" "d < 128" "ascii_lower c = ascii_lower d"
    "ascii cs" "ascii ds" "map ascii_lower cs = map ascii_lower ds"
    by (simp_all add: ascii_def)
  with Cons.IH [of ds] atom_ok_same_case [of c d uni] k2 show ?case
    by simp
qed

text \<open>
  Claim C8 as stated fails for the keywords \<open>\d\<close> and \<open>\D\<close>, which differ only in the
  case of a letter: as regular expressions the first matches a digit and the second
  anything but a digit, so that the second finds the place and the first does not.
\<close>

theorem search_place_case_counterexample:
  "str_lower no_unicode [backslash, 100] = str_lower no_unicode [backslash, 68]
   \<and> search_place no_unicode no_ext stable_nargsort [borobudur] [backslash, 68]
       = Inr [(borobudur, 0)]
   \<and> search_place no_unicode no_ext stable_nargsort [borobudur] [backslash, 100] = Inr []"
proof -
  have "str_lower no_unicode [backslash, 100] = str_lower no_unicode [backslash, 68]"
    by code_simp
  moreover have "search_place no_unicode no_ext stable_nargsort [borobudur] [backslash, 68]
      = Inr [(borobudur, 0)]"
    by code_simp
  moreover have "search_place no_unicode no_ext stable_nargsort [borobudur] [backslash, 100]
      = Inr []"
    by code_simp
  ultimately show ?thesis by blast
qed

text \<open>
  Claim C8, amended. For two keywords made of ordinary ASCII characters and dots that
  differ only in the case of their letters, the two searches have the same outcome: the
  same rows with the same relevance in the same order, or the same exception.
\<close>

theorem search_place_case_insensitive:
  assumes "ascii k1" and "ascii k2" and "plain k1" and "plain k2"
    and "map ascii_lower k1 = map ascii_lower k2"
  shows "search_place uni ext srt place_df k1 = search_place uni ext srt place_df k2"
proof -
  have "re_search uni (map atom_of k1) = re_search uni (map atom_of k2)"
    by (rule ext) (rule re_search_same_case [OF atoms_same_case [OF assms(1,2,5)]])
  then have "re_compile uni ext k1 = re_compile uni ext k2"
    using assms(3,4) by (simp add: re_compile_def parse_atoms_plain)
  moreover have "str_lower uni k1 = str_lower uni k2"
    using assms(1,2,5) by (simp add: str_lower_ascii)
  ultimately show ?thesis
    by (simp add: search_place_def)
qed

text \<open>A catalogue of one place searched for \<open>B.RO\<close> and for \<open>b.ro\<close>.\<close>

theorem search_place_case_insensitive_witness:
  "ascii (codes ''B.RO'') \<and> ascii (codes ''b.ro'')
   \<and> plain (codes ''B.RO'') \<and> plain (codes ''b.ro'')
   \<and> map ascii_lower (codes ''B.RO'') = map ascii_lower (codes ''b.ro'')
   \<and> search_place no_unicode no_ext stable_nargsort [borobudur] (codes ''B.RO'')
       = Inr [(borobudur, 0)]
   \<and> search_place no_unicode no_ext stable_nargsort [borobudur] (codes ''b.ro'')
       = Inr [(borobudur, 0)]"
proof -
  have a: "ascii (codes ''B.RO'')" by code_simp
  have b: "ascii (codes ''b.ro'')" by code_simp
  have c: "plain (codes ''B.RO'')" by code_simp
  have d: "plain (codes ''b.ro'')" by code_simp
  have e: "map ascii_lower (codes ''B.RO'') = map ascii_lower (codes ''b.ro'')" by code_simp
  have s: "search_place no_unicode no_ext stable_nargsort [borobudur] (codes ''B.RO'')
       = Inr [(borobudur, 0)]"
    by code_simp
  from search_place_case_insensitive [OF a b c d e, of no_unicode no_ext stable_nargsort
      "[borobudur]"] s
  have "search_place no_unicode no_ext stable_nargsort [borobudur] (codes ''b.ro'')
       = Inr [(borobudur, 0)]"
    by simp
  with a b c d e s show ?thesis by blast
qed

section \<open>Properties of the average rating\<close>

text \<open>
  A selection of rows is summed by position.
\<close>

lemma sum_list_filter_index:
  fixes f :: "'a \<Rightarrow> real"
  shows "sum_list (map f (filter P xs)) = (\<Sum>i \<in> {i. i < length xs \<and> P (xs ! i)}. f (xs ! i))"
proof -
  have "sum_list (map f (filter P xs)) = sum_list (map (\<lambda>x. if P x then f x else 0) xs)"
    by (rule sum_list_map_filter')
  also have "\<dots> = (\<Sum>i = 0..<length xs. if P (xs ! i) then f (xs ! i) else 0)"
    by (simp add: sum_list_sum_nth)
  also have "\<dots> = (\<Sum>i \<in> {i \<in> {0..<length xs}. P (xs ! i)}. f (xs ! i))"
    by (rule sum.inter_filter [symmetric]) simp
  finally have "sum_list (map f (filter P xs))
      = (\<Sum>i \<in> {i \<in> {0..<length xs}. P (xs ! i)}. f (xs ! i))" .
  moreover have "{i \<in> {0..<length xs}. P (xs ! i)} = {i. i < length xs \<and> P (xs ! i)}"
    by auto
  ultimately show ?thesis by simp
qed

lemma avg_rating_rows:
  "avg_rating rating_df nm =
     (if rating_rows rating_df nm = {} then None
      else Some ((\<Sum>i \<in> rating_rows rating_df nm. Place_Rating (rating_df ! i))
                 / real (card (rating_rows rating_df nm))))"
proof -
  let ?P = "\<lambda>r. lower (Rated_Place_Name r) = lower nm"
  let ?sel = "filter ?P rating_df"
  have len: "length ?sel = card (rating_rows rating_df nm)"
    by (simp add: length_filter_conv_card rating_rows_def)
  have fin: "finite (rating_rows rating_df nm)"
    by (simp add: rating_rows_def)
  have sum: "sum_list (map Place_Rating ?sel)
               = (\<Sum>i \<in> rating_rows rating_df nm. Place_Rating (rating_df ! i))"
    unfolding rating_rows_def by (rule sum_list_filter_index)
  have "?sel = [] \<longleftrightarrow> rating_rows rating_df nm = {}"
    using len fin by (metis card_0_eq length_0_conv)
  then show ?thesis
    using len sum by (simp add: avg_rating_def mean_def)
qed

text \<open>
  Claim C7. For every place name, the average rating is the sum of the ratings of the
  rows of the rating table whose place name equals it without regard to case, each row
  counted once by its position (equal rows are not merged), divided by the number of these
  rows; when there is no such row the outcome is the distinct value for no rating, not a
  number, and the page prints that there is no rating yet. The ratings 4, 5 and 3 give 4.
\<close>

theorem avg_rating_mean:
  "(rating_rows rating_df nm = {} \<longrightarrow>
      avg_rating rating_df nm = None \<and> rating_line rating_df nm = No_Rating)
   \<and> (rating_rows rating_df nm \<noteq> {} \<longrightarrow>
      avg_rating rating_df nm
        = Some ((\<Sum>i \<in> rating_rows rating_df nm. Place_Rating (rating_df ! i))
                / real (card (rating_rows rating_df nm)))
      \<and> rating_line rating_df nm
        = Average ((\<Sum>i \<in> rating_rows rating_df nm. Place_Rating (rating_df ! i))
                   / real (card (rating_rows rating_df nm))))
   \<and> mean [4, 5, 3] = Some 4"
proof -
  have "mean [4, 5, 3] = Some 4"
    by (simp add: mean_def)
  then show ?thesis
    by (simp add: avg_rating_rows rating_line_def)
qed

text \<open>
  The sample ratings: a place without ratings, and one rated 4, 5 and 3 under names in
  different case.
\<close>

theorem avg_rating_mean_witness:
  "rating_rows sample_ratings ''Candi Mendut'' = {}
   \<and> avg_rating sample_ratings ''Candi Mendut'' = None
   \<and> rating_line sample_ratings ''Candi Mendut'' = No_Rating
   \<and> rating_rows sample_ratings ''BOROBUDUR TEMPLE'' \<noteq> {}
   \<and> avg_rating sample_ratings ''BOROBUDUR TEMPLE'' = Some 4
   \<and> rating_line sample_ratings ''BOROBUDUR TEMPLE'' = Average 4"
proof -
  have n: "avg_rating sample_ratings ''Candi Mendut'' = None"
    by code_simp
  have b: "avg_rating sample_ratings ''BOROBUDUR TEMPLE'' = Some 4"
    by code_simp
  note t1 = avg_rating_mean [of sample_ratings "''Candi Mendut''"]
  note t2 = avg_rating_mean [of sample_ratings "''BOROBUDUR TEMPLE''"]
  from t1 n have e: "rating_rows sample_ratings ''Candi Mendut'' = {}"
    by auto
  from t2 b have ne: "rating_rows sample_ratings ''BOROBUDUR TEMPLE'' \<noteq> {}"
    by auto
  from t1 e have l1: "rating_line sample_ratings ''Candi Mendut'' = No_Rating"
    by blast
  from t2 ne b have l2: "rating_line sample_ratings ''BOROBUDUR TEMPLE'' = Average 4"
    by auto
  from n b e ne l1 l2 show ?thesis by blast
qed



end
